theory Spec2Isabelle
  imports Main "HOL-Library.Multiset"
begin

section \<open>Data model\<close>

text \<open>
  The scheduling methods of \<^verbatim>\<open>DiskSchedulingSimulator\<close> work on Python integers and
  on a Python list of integers: cylinders, the head position and the disk size are
  \<^typ>\<open>int\<close>, the request queue and the seek sequence are \<^typ>\<open>int list\<close>, and the
  \<^verbatim>\<open>direction\<close> argument of \<^verbatim>\<open>scan\<close> is a \<^typ>\<open>string\<close>.

  Each method returns the tuple \<^verbatim>\<open>(seek_sequence, total_seek)\<close>. Some of them also
  change the list object they were handed (\<^verbatim>\<open>requests.sort()\<close>,
  \<^verbatim>\<open>requests.remove(...)\<close>), which the caller can observe afterwards. A call is
  therefore modelled as a pair: the returned tuple, and the contents of the
  \<^verbatim>\<open>requests\<close> argument when the call returns.
\<close>

type_synonym result = "int list \<times> int"

type_synonym outcome = "result \<times> int list"

definition seek_sequence_of :: "outcome \<Rightarrow> int list" where
  "seek_sequence_of out = fst (fst out)"

definition total_seek_of :: "outcome \<Rightarrow> int" where
  "total_seek_of out = snd (fst out)"

definition requests_after :: "outcome \<Rightarrow> int list" where
  "requests_after out = snd out"

section \<open>The seek cost\<close>

text \<open>
  Every method ends with the same expression,
  \<^verbatim>\<open>sum(abs(seek_sequence[i] - seek_sequence[i-1]) for i in range(1, len(seek_sequence)))\<close>.
  The index \<^verbatim>\<open>i\<close> runs from 1, so \<^verbatim>\<open>i-1\<close> is never negative and both reads are in
  range.
\<close>

definition total_seek :: "int list \<Rightarrow> int" where
  "total_seek seek_sequence =
     sum_list (map (\<lambda>i. \<bar>seek_sequence ! i - seek_sequence ! (i - 1)\<bar>)
                   [1..<length seek_sequence])"

section \<open>FCFS\<close>

definition fcfs :: "int \<Rightarrow> int list \<Rightarrow> int \<Rightarrow> outcome" where
  "fcfs head requests disk_size =
     (let seek_sequence = [head] @ requests
      in ((seek_sequence, total_seek seek_sequence), requests))"

section \<open>SSTF\<close>

text \<open>
  \<^verbatim>\<open>min(requests, key=...)\<close> keeps the first element whose key is strictly smaller
  than the key of every element before it, and raises \<^verbatim>\<open>ValueError\<close> on an empty
  list. \<^verbatim>\<open>requests.remove(x)\<close> deletes the first occurrence of \<^verbatim>\<open>x\<close> and raises
  \<^verbatim>\<open>ValueError\<close> when there is none. Both errors are the value \<^term>\<open>None\<close>.
\<close>

fun min_from :: "(int \<Rightarrow> int) \<Rightarrow> int \<Rightarrow> int list \<Rightarrow> int" where
  "min_from key best [] = best"
| "min_from key best (x # xs) =
     (if key x < key best then min_from key x xs else min_from key best xs)"

fun py_min :: "(int \<Rightarrow> int) \<Rightarrow> int list \<Rightarrow> int option" where
  "py_min key [] = None"
| "py_min key (x # xs) = Some (min_from key x xs)"

fun list_remove :: "int \<Rightarrow> int list \<Rightarrow> int list option" where
  "list_remove x [] = None"
| "list_remove x (y # ys) =
     (if y = x then Some ys else map_option ((#) y) (list_remove x ys))"

lemma list_remove_length:
  "list_remove x ys = Some zs \<Longrightarrow> length zs < length ys"
  by (induction ys arbitrary: zs) (auto split: if_splits)

text \<open>
  The \<^verbatim>\<open>while requests:\<close> loop, on the three variables it updates. It returns the
  final \<^verbatim>\<open>seek_sequence\<close> and the final contents of \<^verbatim>\<open>requests\<close>.
\<close>

function sstf_loop :: "int \<Rightarrow> int list \<Rightarrow> int list \<Rightarrow> (int list \<times> int list) option" where
  "sstf_loop current_head seek_sequence requests =
     (if requests = [] then Some (seek_sequence, requests)
      else
        (case py_min (\<lambda>x. \<bar>x - current_head\<bar>) requests of
           None \<Rightarrow> None
         | Some closest_req \<Rightarrow>
             (case list_remove closest_req requests of
                None \<Rightarrow> None
              | Some requests' \<Rightarrow>
                  sstf_loop closest_req (seek_sequence @ [closest_req]) requests')))"
  by pat_completeness auto
termination
  by (relation "measure (\<lambda>(current_head, seek_sequence, requests). length requests)")
     (auto simp: list_remove_length)

definition sstf :: "int \<Rightarrow> int list \<Rightarrow> int \<Rightarrow> outcome option" where
  "sstf head requests disk_size =
     (case sstf_loop head [head] requests of
        None \<Rightarrow> None
      | Some (seek_sequence, requests') \<Rightarrow>
          Some ((seek_sequence, total_seek seek_sequence), requests'))"

section \<open>SCAN, C-SCAN and C-LOOK\<close>

text \<open>
  \<^verbatim>\<open>requests.sort()\<close> sorts the argument in place, ascending; on integers the result
  is the sorted permutation \<^term>\<open>sort requests\<close>. \<^verbatim>\<open>sorted(left, reverse=True)\<close> is
  a new list, descending. The comparison \<^verbatim>\<open>direction == "right"\<close> is on strings, and
  every other value takes the \<^verbatim>\<open>else\<close> branch.
\<close>

definition scan :: "int \<Rightarrow> int list \<Rightarrow> int \<Rightarrow> string \<Rightarrow> outcome" where
  "scan head requests disk_size direction =
     (let seek_sequence = [head];
          requests = sort requests;
          seek_sequence =
            (if direction = ''right'' then
               (let right = filter (\<lambda>r. r \<ge> head) requests;
                    left = filter (\<lambda>r. r < head) requests;
                    seek_sequence = seek_sequence @ right
                in if left \<noteq> []
                   then (seek_sequence @ [disk_size - 1]) @ rev (sort left)
                   else seek_sequence)
             else
               (let left = filter (\<lambda>r. r < head) requests;
                    right = filter (\<lambda>r. r \<ge> head) requests;
                    seek_sequence = seek_sequence @ rev (sort left)
                in if right \<noteq> []
                   then (seek_sequence @ [0]) @ right
                   else seek_sequence))
      in ((seek_sequence, total_seek seek_sequence), requests))"

definition c_scan :: "int \<Rightarrow> int list \<Rightarrow> int \<Rightarrow> outcome" where
  "c_scan head requests disk_size =
     (let seek_sequence = [head];
          requests = sort requests;
          right = filter (\<lambda>r. r \<ge> head) requests;
          left = filter (\<lambda>r. r < head) requests;
          seek_sequence = seek_sequence @ right;
          seek_sequence =
            (if left \<noteq> []
             then (seek_sequence @ [disk_size - 1, 0]) @ left
             else seek_sequence)
      in ((seek_sequence, total_seek seek_sequence), requests))"

definition c_look :: "int \<Rightarrow> int list \<Rightarrow> int \<Rightarrow> outcome" where
  "c_look head requests disk_size =
     (let seek_sequence = [head];
          requests = sort requests;
          right = filter (\<lambda>r. r \<ge> head) requests;
          left = filter (\<lambda>r. r < head) requests;
          seek_sequence = seek_sequence @ right;
          seek_sequence =
            (if left \<noteq> [] then seek_sequence @ left else seek_sequence)
      in ((seek_sequence, total_seek seek_sequence), requests))"

section \<open>Validated inputs\<close>

text \<open>
  \<^verbatim>\<open>get_inputs\<close> hands a triple to the algorithms only when
  \<^verbatim>\<open>0 <= head < disk_size\<close> holds and
  \<^verbatim>\<open>any(not (0 <= r < disk_size) for r in requests)\<close> is false. A positive disk size
  follows from the first check.
\<close>

definition valid_inputs :: "int \<Rightarrow> int list \<Rightarrow> int \<Rightarrow> bool" where
  "valid_inputs head requests disk_size \<longleftrightarrow>
     (0 \<le> head \<and> head < disk_size) \<and>
     \<not> list_ex (\<lambda>r. \<not> (0 \<le> r \<and> r < disk_size)) requests"

section \<open>Properties of the seek cost\<close>

lemma total_seek_single: "total_seek [x] = 0"
  by (simp add: total_seek_def)

lemma total_seek_Cons2: "total_seek (x # y # ys) = \<bar>y - x\<bar> + total_seek (y # ys)"
proof -
  define f where "f = (\<lambda>i. \<bar>(x # y # ys) ! i - (x # y # ys) ! (i - 1)\<bar>)"
  define g where "g = (\<lambda>i. \<bar>(y # ys) ! i - (y # ys) ! (i - 1)\<bar>)"
  have "[Suc 0..<Suc (Suc (length ys))] = Suc 0 # [Suc (Suc 0)..<Suc (Suc (length ys))]"
    by (rule upt_conv_Cons) simp
  also have "[Suc (Suc 0)..<Suc (Suc (length ys))] = map Suc [Suc 0..<Suc (length ys)]"
    by (simp only: map_Suc_upt)
  finally have idx: "[1..<length (x # y # ys)] = 1 # map Suc [1..<length (y # ys)]"
    by simp
  have fg: "f (Suc i) = g i" if "i \<in> set [1..<length (y # ys)]" for i
  proof -
    from that have "i \<noteq> 0" by auto
    then obtain j where "i = Suc j" using not0_implies_Suc by blast
    then show ?thesis by (simp add: f_def g_def)
  qed
  have "total_seek (x # y # ys) = sum_list (map f (1 # map Suc [1..<length (y # ys)]))"
    unfolding total_seek_def f_def idx ..
  also have "\<dots> = f 1 + sum_list (map (\<lambda>i. f (Suc i)) [1..<length (y # ys)])"
    by (simp only: list.map sum_list.Cons map_map comp_def)
  also have "map (\<lambda>i. f (Suc i)) [1..<length (y # ys)] = map g [1..<length (y # ys)]"
    by (rule map_cong [OF refl]) (rule fg)
  also have "f 1 = \<bar>y - x\<bar>"
    by (simp add: f_def)
  finally show ?thesis
    by (simp only: total_seek_def g_def)
qed

lemma total_seek_nonneg: "0 \<le> total_seek s"
  unfolding total_seek_def by (rule sum_list_nonneg) auto

lemma total_seek_zero_iff: "total_seek (x # xs) = 0 \<longleftrightarrow> (\<forall>y\<in>set xs. y = x)"
proof (induction xs arbitrary: x)
  case Nil
  show ?case by (simp add: total_seek_single)
next
  case (Cons y ys)
  have "0 \<le> total_seek (y # ys)" by (rule total_seek_nonneg)
  then have "total_seek (x # y # ys) = 0 \<longleftrightarrow> y = x \<and> total_seek (y # ys) = 0"
    unfolding total_seek_Cons2 by linarith
  with Cons.IH [of y] show ?case by auto
qed

section \<open>The SSTF loop always returns\<close>

lemma min_from_in: "min_from key best xs \<in> insert best (set xs)"
  by (induction xs arbitrary: best) (auto split: if_splits)

lemma py_min_in:
  "requests \<noteq> [] \<Longrightarrow> \<exists>c. py_min key requests = Some c \<and> c \<in> set requests"
  using min_from_in by (cases requests) auto

lemma list_remove_member: "x \<in> set ys \<Longrightarrow> list_remove x ys = Some (remove1 x ys)"
  by (induction ys) auto

text \<open>
  Neither \<^verbatim>\<open>ValueError\<close> can happen inside the loop: the guard keeps the list
  non-empty for \<^verbatim>\<open>min\<close>, and the element that \<^verbatim>\<open>min\<close> found is in the list for
  \<^verbatim>\<open>remove\<close>. The loop ends with the list empty and with every request appended once
  to the sequence it started from.
\<close>

lemma sstf_loop_returns:
  "\<exists>visited. sstf_loop current_head seek_sequence requests = Some (seek_sequence @ visited, [])
     \<and> mset visited = mset requests"
proof (induction current_head seek_sequence requests rule: sstf_loop.induct)
  case (1 current_head seek_sequence requests)
  show ?case
  proof (cases "requests = []")
    case True
    then show ?thesis by simp
  next
    case False
    then obtain c where c: "py_min (\<lambda>x. \<bar>x - current_head\<bar>) requests = Some c" "c \<in> set requests"
      using py_min_in by blast
    then have r: "list_remove c requests = Some (remove1 c requests)"
      by (simp add: list_remove_member)
    from "1.IH" [OF False c(1) r] obtain visited where
      v: "sstf_loop c (seek_sequence @ [c]) (remove1 c requests)
            = Some ((seek_sequence @ [c]) @ visited, [])"
         "mset visited = mset (remove1 c requests)"
      by blast
    have "sstf_loop current_head seek_sequence requests
            = Some (seek_sequence @ (c # visited), [])"
      using False c(1) r v(1) by (subst sstf_loop.simps) simp
    moreover have "mset (c # visited) = mset requests"
      using v(2) c(2) by simp
    ultimately show ?thesis by blast
  qed
qed

lemma sstf_returns:
  "\<exists>visited. sstf head requests disk_size
       = Some ((head # visited, total_seek (head # visited)), [])
     \<and> mset visited = mset requests"
proof -
  obtain visited where "sstf_loop head [head] requests = Some ([head] @ visited, [])"
    "mset visited = mset requests"
    using sstf_loop_returns by blast
  then show ?thesis by (auto simp: sstf_def)
qed

section \<open>The sequences of the sweeping algorithms\<close>

lemma sort_sort: "sort (sort xs) = sort (xs :: int list)"
  by (rule sorted_sort_id) (rule sorted_sort)

lemma sort_eq_Nil: "sort xs = [] \<longleftrightarrow> (xs :: int list) = []"
  using length_sort [of "\<lambda>x. x" xs] by (metis length_0_conv)

lemmas partition_simps = filter_sort sort_sort sort_eq_Nil filter_empty_conv

text \<open>
  Sorting the queue first and splitting it at the head afterwards gives the same two
  lists as splitting first and sorting each part.
\<close>

lemma scan_right_sequence:
  "seek_sequence_of (scan head requests disk_size ''right'') =
     head # sort (filter (\<lambda>r. r \<ge> head) requests) @
       (if \<exists>r\<in>set requests. r < head
        then (disk_size - 1) # rev (sort (filter (\<lambda>r. r < head) requests))
        else [])"
  unfolding scan_def seek_sequence_of_def Let_def
  by (auto simp: partition_simps)

lemma scan_left_sequence:
  "direction \<noteq> ''right'' \<Longrightarrow>
   seek_sequence_of (scan head requests disk_size direction) =
     head # rev (sort (filter (\<lambda>r. r < head) requests)) @
       (if \<exists>r\<in>set requests. r \<ge> head
        then 0 # sort (filter (\<lambda>r. r \<ge> head) requests)
        else [])"
  unfolding scan_def seek_sequence_of_def Let_def
  by (auto simp: partition_simps)

lemma c_scan_sequence:
  "seek_sequence_of (c_scan head requests disk_size) =
     head # sort (filter (\<lambda>r. r \<ge> head) requests) @
       (if \<exists>r\<in>set requests. r < head
        then [disk_size - 1, 0] @ sort (filter (\<lambda>r. r < head) requests)
        else [])"
  unfolding c_scan_def seek_sequence_of_def Let_def
  by (auto simp: partition_simps)

lemma c_look_sequence:
  "seek_sequence_of (c_look head requests disk_size) =
     head # sort (filter (\<lambda>r. r \<ge> head) requests) @
       sort (filter (\<lambda>r. r < head) requests)"
  unfolding c_look_def seek_sequence_of_def Let_def
  by (auto simp: partition_simps)

section \<open>What every result looks like\<close>

lemma cost_of_sequence:
  "seek_sequence_of out = head # xs \<Longrightarrow> total_seek_of out = total_seek (head # xs) \<Longrightarrow>
   0 \<le> total_seek_of out \<and>
   (total_seek_of out = 0 \<longleftrightarrow> (\<forall>c\<in>set (seek_sequence_of out). c = head))"
  by (simp add: total_seek_nonneg total_seek_zero_iff)

lemma fcfs_total: "total_seek_of (fcfs head requests disk_size)
    = total_seek (seek_sequence_of (fcfs head requests disk_size))"
  by (simp add: fcfs_def Let_def total_seek_of_def seek_sequence_of_def)

lemma scan_total: "total_seek_of (scan head requests disk_size direction)
    = total_seek (seek_sequence_of (scan head requests disk_size direction))"
  by (simp add: scan_def Let_def total_seek_of_def seek_sequence_of_def)

lemma c_scan_total: "total_seek_of (c_scan head requests disk_size)
    = total_seek (seek_sequence_of (c_scan head requests disk_size))"
  by (simp add: c_scan_def Let_def total_seek_of_def seek_sequence_of_def)

lemma c_look_total: "total_seek_of (c_look head requests disk_size)
    = total_seek (seek_sequence_of (c_look head requests disk_size))"
  by (simp add: c_look_def Let_def total_seek_of_def seek_sequence_of_def)

lemma fcfs_sequence: "seek_sequence_of (fcfs head requests disk_size) = head # requests"
  by (simp add: fcfs_def Let_def seek_sequence_of_def)

lemma scan_starts: "\<exists>xs. seek_sequence_of (scan head requests disk_size direction) = head # xs"
  by (cases "direction = ''right''") (simp_all add: scan_right_sequence scan_left_sequence)

lemma sstf_outcome:
  "\<exists>out visited. sstf head requests disk_size = Some out
     \<and> seek_sequence_of out = head # visited
     \<and> total_seek_of out = total_seek (head # visited)
     \<and> requests_after out = []
     \<and> mset visited = mset requests"
  using sstf_returns [of head requests disk_size]
  by (auto simp: seek_sequence_of_def total_seek_of_def requests_after_def)

lemma mset_halves:
  "mset (sort (filter (\<lambda>r. r \<ge> head) requests)) +
   mset (sort (filter (\<lambda>r. r < head) requests)) = mset (requests :: int list)"
  using multiset_partition [of "mset requests" "\<lambda>r. head \<le> r"]
  by (simp add: not_le)

lemma mset_sweep:
  "mset first + mset second = mset requests \<Longrightarrow>
   mset (head # first @ stops @ second) = add_mset head (mset requests) + mset stops"
  by (metis add.assoc add.commute mset.simps(2) mset_append union_mset_add_mset_left)

lemma no_request_below:
  "\<not> (\<exists>r\<in>set requests. r < head) \<Longrightarrow> sort (filter (\<lambda>r. r < head) requests) = []"
  by (simp add: sort_eq_Nil filter_empty_conv)

lemma no_request_above:
  "\<not> (\<exists>r\<in>set requests. r \<ge> head) \<Longrightarrow> sort (filter (\<lambda>r. r \<ge> head) requests) = []"
  by (simp add: sort_eq_Nil filter_empty_conv)

section \<open>The claims\<close>

text \<open>
  C1, as the code behaves. On head 50, disk size 200 and the requests
  98, 183, 37, 122, 14, 124, 65, 67, SSTF returns the seek sequence
  50, 37, 14, 65, 67, 98, 122, 124, 183 with total seek distance 205, and leaves the
  list it was given empty. The first move is to 37, at distance 13 from the head, which
  is nearer than 65 at distance 15.
\<close>

theorem C1_sstf_scenario:
  "sstf 50 [98, 183, 37, 122, 14, 124, 65, 67] 200
     = Some (([50, 37, 14, 65, 67, 98, 122, 124, 183], 205), [])"
  by code_simp

text \<open>
  C1, as the claim states it, fails: on that scenario the value SSTF returns is not
  the sequence 50, 65, 67, 37, 14, 98, 122, 124, 183 with total 239.
\<close>

theorem C1_sstf_scenario_counterexample:
  "map_option fst (sstf 50 [98, 183, 37, 122, 14, 124, 65, 67] 200)
     \<noteq> Some ([50, 65, 67, 37, 14, 98, 122, 124, 183], 239)"
  by code_simp

text \<open>
  C2, as the code behaves. The methods work on the list they are handed and do not copy
  it; it is \<^verbatim>\<open>run_simulation\<close> that passes \<^verbatim>\<open>list(requests)\<close>, a fresh copy, to
  each of them. When the call returns, the argument is unchanged after FCFS, empty after
  SSTF, and sorted ascending after SCAN (in any direction), C-SCAN and C-LOOK. For FCFS,
  SCAN, C-SCAN and C-LOOK a second run on the list the first run left behind returns the
  same sequence and the same total as the first.
\<close>

theorem C2_argument_after_call:
  "requests_after (fcfs head requests disk_size) = requests \<and>
   map_option requests_after (sstf head requests disk_size) = Some [] \<and>
   requests_after (scan head requests disk_size direction) = sort requests \<and>
   requests_after (c_scan head requests disk_size) = sort requests \<and>
   requests_after (c_look head requests disk_size) = sort requests \<and>
   fst (fcfs head (requests_after (fcfs head requests disk_size)) disk_size)
     = fst (fcfs head requests disk_size) \<and>
   fst (scan head (requests_after (scan head requests disk_size direction)) disk_size direction)
     = fst (scan head requests disk_size direction) \<and>
   fst (c_scan head (requests_after (c_scan head requests disk_size)) disk_size)
     = fst (c_scan head requests disk_size) \<and>
   fst (c_look head (requests_after (c_look head requests disk_size)) disk_size)
     = fst (c_look head requests disk_size)"
proof -
  have "map_option requests_after (sstf head requests disk_size) = Some []"
    using sstf_outcome [of head requests disk_size] by auto
  then show ?thesis
    by (simp add: fcfs_def scan_def c_scan_def c_look_def requests_after_def Let_def sort_sort)
qed

text \<open>
  C2, as the claim states it, fails. On the scenario of C1, SCAN leaves the caller's list
  as 14, 37, 65, 67, 98, 122, 124, 183 and SSTF leaves it empty, so neither leaves it
  unchanged; and SSTF run again on the empty list it left returns the head alone with
  total 0, not what the first run returned.
\<close>

theorem C2_argument_after_call_counterexample:
  "requests_after (scan 50 [98, 183, 37, 122, 14, 124, 65, 67] 200 ''right'')
     \<noteq> [98, 183, 37, 122, 14, 124, 65, 67] \<and>
   map_option requests_after (sstf 50 [98, 183, 37, 122, 14, 124, 65, 67] 200)
     \<noteq> Some [98, 183, 37, 122, 14, 124, 65, 67] \<and>
   map_option fst (sstf 50 [] 200)
     \<noteq> map_option fst (sstf 50 [98, 183, 37, 122, 14, 124, 65, 67] 200)"
  by code_simp

text \<open>
  C3, as the code behaves. For every algorithm and every input the total seek distance
  is at least 0, and it is 0 exactly when every cylinder of the returned seek sequence
  is the head position: that is so for the empty queue, and also for a queue whose
  requests are all at the head position when no boundary stop is added.
\<close>

theorem C3_total_seek_sign:
  "(0 \<le> total_seek_of (fcfs head requests disk_size) \<and>
      (total_seek_of (fcfs head requests disk_size) = 0 \<longleftrightarrow>
        (\<forall>c\<in>set (seek_sequence_of (fcfs head requests disk_size)). c = head))) \<and>
   (\<exists>out. sstf head requests disk_size = Some out \<and> 0 \<le> total_seek_of out \<and>
      (total_seek_of out = 0 \<longleftrightarrow> (\<forall>c\<in>set (seek_sequence_of out). c = head))) \<and>
   (0 \<le> total_seek_of (scan head requests disk_size direction) \<and>
      (total_seek_of (scan head requests disk_size direction) = 0 \<longleftrightarrow>
        (\<forall>c\<in>set (seek_sequence_of (scan head requests disk_size direction)). c = head))) \<and>
   (0 \<le> total_seek_of (c_scan head requests disk_size) \<and>
      (total_seek_of (c_scan head requests disk_size) = 0 \<longleftrightarrow>
        (\<forall>c\<in>set (seek_sequence_of (c_scan head requests disk_size)). c = head))) \<and>
   (0 \<le> total_seek_of (c_look head requests disk_size) \<and>
      (total_seek_of (c_look head requests disk_size) = 0 \<longleftrightarrow>
        (\<forall>c\<in>set (seek_sequence_of (c_look head requests disk_size)). c = head)))"
proof (intro conjI)
  show "0 \<le> total_seek_of (fcfs head requests disk_size)"
    and "total_seek_of (fcfs head requests disk_size) = 0 \<longleftrightarrow>
        (\<forall>c\<in>set (seek_sequence_of (fcfs head requests disk_size)). c = head)"
    using cost_of_sequence [OF fcfs_sequence, of head requests disk_size] fcfs_total fcfs_sequence
    by simp_all
next
  obtain out visited where o: "sstf head requests disk_size = Some out"
      "seek_sequence_of out = head # visited" "total_seek_of out = total_seek (head # visited)"
    using sstf_outcome by blast
  with cost_of_sequence [OF o(2) o(3)]
  show "\<exists>out. sstf head requests disk_size = Some out \<and> 0 \<le> total_seek_of out \<and>
      (total_seek_of out = 0 \<longleftrightarrow> (\<forall>c\<in>set (seek_sequence_of out). c = head))"
    by blast
next
  obtain xs where "seek_sequence_of (scan head requests disk_size direction) = head # xs"
    using scan_starts by blast
  from cost_of_sequence [OF this] scan_total this
  show "0 \<le> total_seek_of (scan head requests disk_size direction)"
    and "total_seek_of (scan head requests disk_size direction) = 0 \<longleftrightarrow>
        (\<forall>c\<in>set (seek_sequence_of (scan head requests disk_size direction)). c = head)"
    by simp_all
next
  from cost_of_sequence [OF c_scan_sequence] c_scan_total c_scan_sequence
  show "0 \<le> total_seek_of (c_scan head requests disk_size)"
    and "total_seek_of (c_scan head requests disk_size) = 0 \<longleftrightarrow>
        (\<forall>c\<in>set (seek_sequence_of (c_scan head requests disk_size)). c = head)"
    by simp_all
next
  from cost_of_sequence [OF c_look_sequence] c_look_total c_look_sequence
  show "0 \<le> total_seek_of (c_look head requests disk_size)"
    and "total_seek_of (c_look head requests disk_size) = 0 \<longleftrightarrow>
        (\<forall>c\<in>set (seek_sequence_of (c_look head requests disk_size)). c = head)"
    by simp_all
qed

theorem C3_total_seek_sign_witness:
  "seek_sequence_of (fcfs 50 [50, 50] 200) = [50, 50, 50] \<and>
   total_seek_of (fcfs 50 [50, 50] 200) = 0"
  using C3_total_seek_sign [of 50 "[50, 50]" 200]
  by (simp add: fcfs_def Let_def seek_sequence_of_def)

text \<open>
  C3, as the claim states it, fails. Head 50, the single request 50 and disk size 200
  pass the range checks; FCFS returns total seek distance 0 with a seek sequence of
  length 2.
\<close>

theorem C3_total_seek_sign_counterexample:
  "valid_inputs 50 [50] 200 \<and>
   total_seek_of (fcfs 50 [50] 200) = 0 \<and>
   length (seek_sequence_of (fcfs 50 [50] 200)) = 2"
  by code_simp

text \<open>
  C4 fails in the toward-min direction. With the head at 50 and the requests 20, 50, 70,
  \<^verbatim>\<open>scan(..., "left")\<close> sweeps down to 20, stops at the boundary 0, and only then
  services the request at cylinder 50, where the head started: the \<^verbatim>\<open>else\<close> branch
  splits the queue with the same tests \<^verbatim>\<open>r < head\<close> and \<^verbatim>\<open>r >= head\<close> as the
  \<^verbatim>\<open>"right"\<close> branch, so a request at the head falls into the set serviced after
  the reversal.
\<close>

theorem C4_scan_left_request_at_head:
  "scan 50 [20, 50, 70] 200 ''left'' = (([50, 20, 0, 50, 70], 120), [20, 50, 70])"
  by code_simp

text \<open>
  C5. For every algorithm and every input, the seek sequence as a multiset is the head
  position, the requests with their multiplicities, and the boundary stops the algorithm
  added: none for FCFS, SSTF and C-LOOK; \<^verbatim>\<open>disk_size - 1\<close> for SCAN toward the maximum
  when a request lies below the head; 0 for SCAN toward the minimum when a request lies
  at or above the head; \<^verbatim>\<open>disk_size - 1\<close> and 0 for C-SCAN when a request lies below
  the head. So taking the leading head position and the added boundary stops away leaves
  exactly the multiset of the requests.
\<close>

theorem C5_requests_consumed_once:
  "mset (seek_sequence_of (fcfs head requests disk_size)) = add_mset head (mset requests) \<and>
   (\<exists>out. sstf head requests disk_size = Some out \<and>
      mset (seek_sequence_of out) = add_mset head (mset requests)) \<and>
   mset (seek_sequence_of (scan head requests disk_size ''right'')) =
     add_mset head (mset requests) +
       (if \<exists>r\<in>set requests. r < head then {#disk_size - 1#} else {#}) \<and>
   (direction \<noteq> ''right'' \<longrightarrow>
     mset (seek_sequence_of (scan head requests disk_size direction)) =
       add_mset head (mset requests) +
         (if \<exists>r\<in>set requests. r \<ge> head then {#0#} else {#})) \<and>
   mset (seek_sequence_of (c_scan head requests disk_size)) =
     add_mset head (mset requests) +
       (if \<exists>r\<in>set requests. r < head then {#disk_size - 1, 0#} else {#}) \<and>
   mset (seek_sequence_of (c_look head requests disk_size)) = add_mset head (mset requests)"
proof (intro conjI impI)
  define above where "above = sort (filter (\<lambda>r. r \<ge> head) requests)"
  define below where "below = sort (filter (\<lambda>r. r < head) requests)"
  have up: "mset above + mset below = mset requests"
    unfolding above_def below_def by (rule mset_halves)
  have up_rev: "mset above + mset (rev below) = mset requests"
    using up by simp
  have down_rev: "mset (rev below) + mset above = mset requests"
    using up by (simp add: add.commute)
  show "mset (seek_sequence_of (fcfs head requests disk_size)) = add_mset head (mset requests)"
    by (simp add: fcfs_sequence)
  show "\<exists>out. sstf head requests disk_size = Some out \<and>
      mset (seek_sequence_of out) = add_mset head (mset requests)"
  proof -
    obtain out visited where "sstf head requests disk_size = Some out"
      "seek_sequence_of out = head # visited" "mset visited = mset requests"
      using sstf_outcome by blast
    then show ?thesis by auto
  qed
  show "mset (seek_sequence_of (scan head requests disk_size ''right'')) =
     add_mset head (mset requests) +
       (if \<exists>r\<in>set requests. r < head then {#disk_size - 1#} else {#})"
  proof -
    have "seek_sequence_of (scan head requests disk_size ''right'') =
        head # above @ (if \<exists>r\<in>set requests. r < head then [disk_size - 1] else []) @ rev below"
      using no_request_below [of requests head]
      by (simp add: scan_right_sequence above_def below_def)
    then show ?thesis
      using mset_sweep [OF up_rev] by simp
  qed
  show "mset (seek_sequence_of (c_scan head requests disk_size)) =
     add_mset head (mset requests) +
       (if \<exists>r\<in>set requests. r < head then {#disk_size - 1, 0#} else {#})"
  proof -
    have "seek_sequence_of (c_scan head requests disk_size) =
        head # above @ (if \<exists>r\<in>set requests. r < head then [disk_size - 1, 0] else []) @ below"
      using no_request_below [of requests head]
      by (simp add: c_scan_sequence above_def below_def)
    then show ?thesis
      using mset_sweep [OF up] by simp
  qed
  show "mset (seek_sequence_of (c_look head requests disk_size)) = add_mset head (mset requests)"
    using mset_sweep [OF up, of head "[]"]
    by (simp add: c_look_sequence above_def below_def)
  assume "direction \<noteq> ''right''"
  then have "seek_sequence_of (scan head requests disk_size direction) =
      head # rev below @ (if \<exists>r\<in>set requests. r \<ge> head then [0] else []) @ above"
    using no_request_above [of requests head]
    by (simp add: scan_left_sequence above_def below_def)
  then show "mset (seek_sequence_of (scan head requests disk_size direction)) =
       add_mset head (mset requests) +
         (if \<exists>r\<in>set requests. r \<ge> head then {#0#} else {#})"
    using mset_sweep [OF down_rev] by simp
qed

theorem C5_requests_consumed_once_witness:
  "(\<exists>r\<in>set [98, 183, 37, 122, 14, 124, 65, 67]. r < (50::int)) \<and>
   ''left'' \<noteq> ''right'' \<and>
   mset (seek_sequence_of (scan 50 [98, 183, 37, 122, 14, 124, 65, 67] 200 ''right'')) =
     add_mset 50 (mset [98, 183, 37, 122, 14, 124, 65, 67]) + {#199#} \<and>
   mset (seek_sequence_of (scan 50 [98, 183, 37, 122, 14, 124, 65, 67] 200 ''left'')) =
     add_mset 50 (mset [98, 183, 37, 122, 14, 124, 65, 67]) + {#0#} \<and>
   mset (seek_sequence_of (c_scan 50 [98, 183, 37, 122, 14, 124, 65, 67] 200)) =
     add_mset 50 (mset [98, 183, 37, 122, 14, 124, 65, 67]) + {#199, 0#}"
  using C5_requests_consumed_once [of 50 "[98, 183, 37, 122, 14, 124, 65, 67]" 200 "''left''"]
  by simp

text \<open>
  C6. When a request lies below the head, the C-SCAN seek sequence is the head, the
  requests at or above the head in ascending order, then \<^verbatim>\<open>disk_size - 1\<close> immediately
  followed by 0, then the requests below the head in ascending order. When no request
  lies below the head, the sequence is the head followed by the requests in ascending
  order, with no boundary value added.
\<close>

theorem C6_c_scan_boundary_pair:
  "((\<exists>r\<in>set requests. r < head) \<longrightarrow>
      seek_sequence_of (c_scan head requests disk_size) =
        head # sort (filter (\<lambda>r. r \<ge> head) requests) @ [disk_size - 1, 0] @
          sort (filter (\<lambda>r. r < head) requests)) \<and>
   (\<not> (\<exists>r\<in>set requests. r < head) \<longrightarrow>
      seek_sequence_of (c_scan head requests disk_size) = head # sort requests)"
proof (intro conjI impI)
  assume "\<exists>r\<in>set requests. r < head"
  then show "seek_sequence_of (c_scan head requests disk_size) =
        head # sort (filter (\<lambda>r. r \<ge> head) requests) @ [disk_size - 1, 0] @
          sort (filter (\<lambda>r. r < head) requests)"
    by (simp add: c_scan_sequence)
next
  assume none: "\<not> (\<exists>r\<in>set requests. r < head)"
  then have "filter (\<lambda>r. r \<ge> head) requests = requests"
    by (auto simp: filter_id_conv)
  with none show "seek_sequence_of (c_scan head requests disk_size) = head # sort requests"
    by (simp add: c_scan_sequence)
qed

theorem C6_c_scan_boundary_pair_witness:
  "(\<exists>r\<in>set [98, 183, 37, 122, 14, 124, 65, 67]. r < (50::int)) \<and>
   seek_sequence_of (c_scan 50 [98, 183, 37, 122, 14, 124, 65, 67] 200) =
     [50, 65, 67, 98, 122, 124, 183, 199, 0, 14, 37] \<and>
   \<not> (\<exists>r\<in>set [70, 60]. r < (50::int)) \<and>
   seek_sequence_of (c_scan 50 [70, 60] 200) = [50, 60, 70]"
  using C6_c_scan_boundary_pair [of "[98, 183, 37, 122, 14, 124, 65, 67]" 50 200]
        C6_c_scan_boundary_pair [of "[70, 60]" 50 200]
  by simp

text \<open>
  C7. For every input, the seek sequence of FCFS is the head position followed by the
  request queue in its original order: the sequence without its first element is the
  request queue.
\<close>

theorem C7_fcfs_keeps_order:
  "seek_sequence_of (fcfs head requests disk_size) = head # requests \<and>
   tl (seek_sequence_of (fcfs head requests disk_size)) = requests"
  by (simp add: fcfs_def seek_sequence_of_def Let_def)

text \<open>
  C8. On an empty request queue every algorithm, for every head position, disk size and
  direction, returns the seek sequence that holds the head position alone and the total
  seek distance 0.
\<close>

theorem C8_empty_queue:
  "fst (fcfs head [] disk_size) = ([head], 0) \<and>
   map_option fst (sstf head [] disk_size) = Some ([head], 0) \<and>
   fst (scan head [] disk_size direction) = ([head], 0) \<and>
   fst (c_scan head [] disk_size) = ([head], 0) \<and>
   fst (c_look head [] disk_size) = ([head], 0)"
  by (simp add: fcfs_def sstf_def scan_def c_scan_def c_look_def Let_def total_seek_single)

text \<open>
  C9. Every direction value other than \<^verbatim>\<open>"right"\<close> makes \<^verbatim>\<open>scan\<close> return what it
  returns for \<^verbatim>\<open>"left"\<close>, on every input: the same sequence, the same total, and the
  same effect on the list.
\<close>

theorem C9_scan_other_directions:
  "direction \<noteq> ''right'' \<Longrightarrow>
   scan head requests disk_size direction = scan head requests disk_size ''left''"
  by (simp add: scan_def)

theorem C9_scan_other_directions_witness:
  "''down'' \<noteq> ''right'' \<and>
   scan 50 [98, 183, 37, 122, 14, 124, 65, 67] 200 ''down''
     = scan 50 [98, 183, 37, 122, 14, 124, 65, 67] 200 ''left''"
  using C9_scan_other_directions [of "''down''" 50 "[98, 183, 37, 122, 14, 124, 65, 67]" 200]
  by simp

text \<open>
  C10. For every input, the C-SCAN seek sequence is the head, the requests at or above
  the head ascending, the two boundary stops \<^verbatim>\<open>disk_size - 1\<close> and 0 when a request
  lies below the head, and the requests below the head ascending; the C-LOOK seek
  sequence is the same with the two boundary stops left out. The two sequences are equal
  when no request lies below the head.
\<close>

theorem C10_c_look_is_c_scan_without_boundaries:
  "seek_sequence_of (c_scan head requests disk_size) =
     head # sort (filter (\<lambda>r. r \<ge> head) requests) @
       (if \<exists>r\<in>set requests. r < head then [disk_size - 1, 0] else []) @
       sort (filter (\<lambda>r. r < head) requests) \<and>
   seek_sequence_of (c_look head requests disk_size) =
     head # sort (filter (\<lambda>r. r \<ge> head) requests) @
       sort (filter (\<lambda>r. r < head) requests) \<and>
   (\<not> (\<exists>r\<in>set requests. r < head) \<longrightarrow>
      seek_sequence_of (c_look head requests disk_size) =
        seek_sequence_of (c_scan head requests disk_size))"
  by (auto simp: c_scan_sequence c_look_sequence filter_empty_conv)

theorem C10_c_look_is_c_scan_without_boundaries_witness:
  "seek_sequence_of (c_scan 50 [98, 183, 37, 122, 14, 124, 65, 67] 200) =
     [50, 65, 67, 98, 122, 124, 183] @ [199, 0] @ [14, 37] \<and>
   seek_sequence_of (c_look 50 [98, 183, 37, 122, 14, 124, 65, 67] 200) =
     [50, 65, 67, 98, 122, 124, 183] @ [14, 37] \<and>
   \<not> (\<exists>r\<in>set [70, 60]. r < (50::int)) \<and>
   seek_sequence_of (c_look 50 [70, 60] 200) = seek_sequence_of (c_scan 50 [70, 60] 200)"
  using C10_c_look_is_c_scan_without_boundaries [of 50 "[98, 183, 37, 122, 14, 124, 65, 67]" 200]
        C10_c_look_is_c_scan_without_boundaries [of 50 "[70, 60]" 200]
  by simp

end
